theory Spec2Isabelle
  imports Main "HOL-Library.Word" "HOL-Library.Signed_Division"
begin

unbundle bit_operations_syntax

section \<open>The archive listing of shims.c\<close>

text \<open>
  The repository has one C function, \<^verbatim>\<open>list_zip_archive\<close>, which walks the entries of
  an archive opened by the minizip library and prints one line per entry. The library is
  not part of the repository: its status codes and method codes (macros of its headers)
  are a parameter of the model, and so are its operations on the reader handle.
\<close>

subsection \<open>Constants of the library headers\<close>

text \<open>
  The macros the function uses are defined in \<^verbatim>\<open>minizip/mz.h\<close> and
  \<^verbatim>\<open>minizip/mz_zip.h\<close>, which are not under src/. They are taken as a parameter: a
  record with one field per macro.
\<close>

record mz_consts =
  MZ_OK :: "32 word"
  MZ_END_OF_LIST :: "32 word"
  MZ_ZIP_FLAG_ENCRYPTED :: "32 word"
  MZ_COMPRESS_METHOD_STORE :: "16 word"
  MZ_COMPRESS_METHOD_DEFLATE :: "16 word"
  MZ_COMPRESS_METHOD_BZIP2 :: "16 word"
  MZ_COMPRESS_METHOD_LZMA :: "16 word"

text \<open>
  What C itself demands of the macros for the function to compile and to mean what it
  says: the labels of one \<^verbatim>\<open>switch\<close> are pairwise different, and the two status codes
  the function tells apart are different.
\<close>

definition wf_consts :: "mz_consts \<Rightarrow> bool" where
  "wf_consts K \<longleftrightarrow>
     MZ_OK K \<noteq> MZ_END_OF_LIST K \<and>
     distinct [MZ_COMPRESS_METHOD_STORE K, MZ_COMPRESS_METHOD_DEFLATE K,
               MZ_COMPRESS_METHOD_BZIP2 K, MZ_COMPRESS_METHOD_LZMA K]"

text \<open>The values the macros have in the minizip headers, for running the model.\<close>

definition minizip_consts :: mz_consts where
  "minizip_consts =
     \<lparr> MZ_OK = 0, MZ_END_OF_LIST = - 100, MZ_ZIP_FLAG_ENCRYPTED = 1,
       MZ_COMPRESS_METHOD_STORE = 0, MZ_COMPRESS_METHOD_DEFLATE = 8,
       MZ_COMPRESS_METHOD_BZIP2 = 12, MZ_COMPRESS_METHOD_LZMA = 14 \<rparr>"

subsection \<open>Data\<close>

text \<open>
  Modelled from the spec: the declaration of \<^verbatim>\<open>mz_zip_file\<close> is in the library headers.
  The record has the fields the function reads. Their widths are those of the
  \<^verbatim>\<open>printf\<close> conversions in the source (\<^verbatim>\<open>PRId64\<close> for the sizes, \<^verbatim>\<open>PRIx32\<close> for
  the attributes and the checksum) and of the spec (a 32-bit flags word); the method is
  the 16-bit code of the archive format.
\<close>

record mz_zip_file =
  flag :: "32 word"
  compression_method :: "16 word"
  modified_date :: "64 word"
  crc :: "32 word"
  compressed_size :: "64 word"
  uncompressed_size :: "64 word"
  external_fa :: "32 word"
  filename :: string

text \<open>The fields of \<^verbatim>\<open>struct tm\<close> that are printed; each is a C \<^verbatim>\<open>int\<close>.\<close>

record tm =
  tm_min :: "32 word"
  tm_hour :: "32 word"
  tm_mday :: "32 word"
  tm_mon :: "32 word"
  tm_year :: "32 word"

text \<open>
  The operations of the library on a reader, over an abstract reader state \<open>'r\<close>. Each
  returns its status code and the reader after the call. \<^verbatim>\<open>mz_zip_reader_entry_get_info\<close>
  also sets the \<^verbatim>\<open>file_info\<close> pointer, which the function reads only when the status
  is \<^verbatim>\<open>MZ_OK\<close>.
\<close>

record 'r mz_reader_ops =
  mz_zip_reader_goto_first_entry :: "'r \<Rightarrow> 32 word \<times> 'r"
  mz_zip_reader_entry_get_info :: "'r \<Rightarrow> (32 word \<times> mz_zip_file) \<times> 'r"
  mz_zip_reader_goto_next_entry :: "'r \<Rightarrow> 32 word \<times> 'r"
  mz_zip_reader_delete :: "'r \<Rightarrow> 'r"
  mz_zip_time_t_to_tm :: "64 word \<Rightarrow> tm"

subsection \<open>printf conversions\<close>

fun dec_digits :: "nat \<Rightarrow> string" where
  "dec_digits n =
     (if n < 10 then [''0123456789'' ! n]
      else dec_digits (n div 10) @ [''0123456789'' ! (n mod 10)])"

fun hex_digits :: "nat \<Rightarrow> string" where
  "hex_digits n =
     (if n < 16 then [''0123456789abcdef'' ! n]
      else hex_digits (n div 16) @ [''0123456789abcdef'' ! (n mod 16)])"

definition pad_left :: "char \<Rightarrow> nat \<Rightarrow> string \<Rightarrow> string" where
  "pad_left c w s = replicate (w - length s) c @ s"

text \<open>\<^verbatim>\<open>%wd\<close>: signed decimal, right-aligned in at least \<open>w\<close> columns.\<close>

definition fmt_d :: "nat \<Rightarrow> int \<Rightarrow> string" where
  "fmt_d w i =
     pad_left CHR '' '' w
       (if i < 0 then CHR ''-'' # dec_digits (nat (- i)) else dec_digits (nat i))"

text \<open>
  \<^verbatim>\<open>%w.pu\<close>: at least \<open>p\<close> digits, zero-filled, in at least \<open>w\<close> columns. A conversion
  written without a precision has the precision 1.
\<close>

definition fmt_u :: "nat \<Rightarrow> nat \<Rightarrow> nat \<Rightarrow> string" where
  "fmt_u w p n = pad_left CHR '' '' w (pad_left CHR ''0'' p (dec_digits n))"

text \<open>\<^verbatim>\<open>%w.px\<close>: the same in lower-case hexadecimal.\<close>

definition fmt_x :: "nat \<Rightarrow> nat \<Rightarrow> nat \<Rightarrow> string" where
  "fmt_x w p n = pad_left CHR '' '' w (pad_left CHR ''0'' p (hex_digits n))"

text \<open>\<^verbatim>\<open>%ws\<close>: a string right-aligned in at least \<open>w\<close> columns.\<close>

definition fmt_s :: "nat \<Rightarrow> string \<Rightarrow> string" where
  "fmt_s w s = pad_left CHR '' '' w s"

subsection \<open>The derived fields of one entry\<close>

text \<open>
  Lines 45 to 47. The sizes are \<^verbatim>\<open>int64_t\<close>: the comparison is signed, the product
  wraps at 64 bits, the quotient is C's division (towards zero), and the cast to
  \<^verbatim>\<open>uint32_t\<close> keeps the low 32 bits.
\<close>

definition ratio :: "mz_zip_file \<Rightarrow> 32 word" where
  "ratio file_info =
     (if 0 <s uncompressed_size file_info
      then word_of_int (sint (compressed_size file_info * 100) sdiv
                        sint (uncompressed_size file_info))
      else 0)"

text \<open>Lines 50 to 53.\<close>

definition crypt :: "mz_consts \<Rightarrow> mz_zip_file \<Rightarrow> char" where
  "crypt K file_info =
     (if flag file_info AND MZ_ZIP_FLAG_ENCRYPTED K \<noteq> 0 then CHR ''*'' else CHR '' '')"

text \<open>Line 61: \<^verbatim>\<open>level = (int16_t)((file_info->flag & 0x6) / 2)\<close>.\<close>

definition level :: "mz_zip_file \<Rightarrow> 16 word" where
  "level file_info = ucast ((flag file_info AND 0x6) div 2)"

text \<open>Lines 62 to 69: the chain of comparisons on \<^verbatim>\<open>level\<close>.\<close>

definition deflate_method :: "16 word \<Rightarrow> string" where
  "deflate_method l =
     (if l = 0 then ''Defl:N''
      else if l = 1 then ''Defl:X''
      else if l = 2 \<or> l = 3 then ''Defl:F''
      else ''Defl:?'')"

text \<open>Lines 55 to 79: the \<^verbatim>\<open>switch\<close> on the compression method.\<close>

definition string_method :: "mz_consts \<Rightarrow> mz_zip_file \<Rightarrow> string" where
  "string_method K file_info =
     (if compression_method file_info = MZ_COMPRESS_METHOD_STORE K then ''Stored''
      else if compression_method file_info = MZ_COMPRESS_METHOD_DEFLATE K
        then deflate_method (level file_info)
      else if compression_method file_info = MZ_COMPRESS_METHOD_BZIP2 K then ''BZip2''
      else if compression_method file_info = MZ_COMPRESS_METHOD_LZMA K then ''LZMA''
      else ''?'')"

subsection \<open>The lines printed\<close>

definition header_lines :: "string list" where
  "header_lines =
     [''      Packed     Unpacked Ratio Method   Attribs Date     Time  CRC-32     Name'' @ [CHR 0x0A],
      ''      ------     -------- ----- ------   ------- ----     ----  ------     ----'' @ [CHR 0x0A]]"

definition first_entry_error :: "32 word \<Rightarrow> string" where
  "first_entry_error err =
     ''Error '' @ fmt_d 0 (sint err) @ '' going to first entry in archive'' @ [CHR 0x0A]"

definition entry_info_error :: "32 word \<Rightarrow> string" where
  "entry_info_error err =
     ''Error '' @ fmt_d 0 (sint err) @ '' getting entry info in archive'' @ [CHR 0x0A]"

definition next_entry_error :: "32 word \<Rightarrow> string" where
  "next_entry_error err =
     ''Error '' @ fmt_d 0 (sint err) @ '' going to next entry in archive'' @ [CHR 0x0A]"

text \<open>Lines 81 to 91: the date is decoded, then the entry is printed.\<close>

definition entry_line :: "mz_consts \<Rightarrow> (64 word \<Rightarrow> tm) \<Rightarrow> mz_zip_file \<Rightarrow> string" where
  "entry_line K time_t_to_tm file_info =
     (let tmu_date = time_t_to_tm (modified_date file_info) in
      fmt_d 12 (sint (compressed_size file_info)) @ '' '' @
      fmt_d 12 (sint (uncompressed_size file_info)) @ ''  '' @
      fmt_u 3 1 (unat (ratio file_info)) @ ''% '' @
      fmt_s 6 (string_method K file_info) @ [crypt K file_info] @ '' '' @
      fmt_x 8 1 (unat (external_fa file_info)) @ '' '' @
      fmt_u 2 2 (unat (tm_mon tmu_date + 1)) @ ''-'' @
      fmt_u 2 2 (unat (tm_mday tmu_date)) @ ''-'' @
      fmt_u 2 2 (unat (tm_year tmu_date) mod 100) @ '' '' @
      fmt_u 2 2 (unat (tm_hour tmu_date)) @ '':'' @
      fmt_u 2 2 (unat (tm_min tmu_date)) @ '' '' @
      fmt_x 8 8 (unat (crc file_info)) @ ''   '' @
      filename file_info @ [CHR 0x0A])"

subsection \<open>The function\<close>

text \<open>
  Lines 35 to 101, the \<^verbatim>\<open>do ... while (err == MZ_OK)\<close> loop. The state is the reader
  and the text printed so far, one list element per \<^verbatim>\<open>printf\<close> call. The result is the
  value of \<^verbatim>\<open>err\<close> at the exit, the text and the reader. The loop returns nothing when
  the library answers \<^verbatim>\<open>MZ_OK\<close> for ever.
\<close>

partial_function (option) enumerate_entries ::
  "mz_consts \<Rightarrow> 'r mz_reader_ops \<Rightarrow> 'r \<Rightarrow> string list \<Rightarrow> (32 word \<times> string list \<times> 'r) option"
where
  "enumerate_entries K c reader out =
     (case mz_zip_reader_entry_get_info c reader of
        ((err, file_info), reader1) \<Rightarrow>
          if err \<noteq> MZ_OK K then Some (err, out @ [entry_info_error err], reader1)
          else
            (case mz_zip_reader_goto_next_entry c reader1 of
               (err2, reader2) \<Rightarrow>
                 if err2 \<noteq> MZ_OK K \<and> err2 \<noteq> MZ_END_OF_LIST K
                 then Some (err2,
                            out @ [entry_line K (mz_zip_time_t_to_tm c) file_info,
                                   next_entry_error err2],
                            reader2)
                 else if err2 = MZ_OK K
                 then enumerate_entries K c reader2
                        (out @ [entry_line K (mz_zip_time_t_to_tm c) file_info])
                 else Some (err2,
                            out @ [entry_line K (mz_zip_time_t_to_tm c) file_info],
                            reader2)))"

text \<open>Lines 103 to 106: the value returned after the loop.\<close>

definition return_value :: "mz_consts \<Rightarrow> 32 word \<Rightarrow> 32 word" where
  "return_value K err = (if err = MZ_END_OF_LIST K then MZ_OK K else err)"

text \<open>
  The whole function: the return value, the text printed and the reader the caller is
  left with. On the first error path (lines 24 to 29) the function calls
  \<^verbatim>\<open>mz_zip_reader_delete\<close> on the reader and prints no header.
\<close>

definition list_zip_archive ::
  "mz_consts \<Rightarrow> 'r mz_reader_ops \<Rightarrow> 'r \<Rightarrow> (32 word \<times> string list \<times> 'r) option"
where
  "list_zip_archive K c reader =
     (case mz_zip_reader_goto_first_entry c reader of
        (err, reader1) \<Rightarrow>
          if err \<noteq> MZ_OK K \<and> err \<noteq> MZ_END_OF_LIST K
          then Some (err, [first_entry_error err], mz_zip_reader_delete c reader1)
          else
            map_option (\<lambda>(err', out, reader'). (return_value K err', out, reader'))
              (enumerate_entries K c reader1 header_lines))"

text \<open>What a caller can see of a run beside the reader: the return value and the text.\<close>

definition observed :: "(32 word \<times> string list \<times> 'r) option \<Rightarrow> (32 word \<times> string list) option" where
  "observed res = map_option (\<lambda>(err, out, reader). (err, out)) res"

subsection \<open>Describing runs\<close>

text \<open>
  \<open>full_iterations K c n reader\<close> describes the start of a run, for stating properties:
  from \<open>reader\<close>, the library answers \<^verbatim>\<open>MZ_OK\<close> to \<open>n\<close> fetches in a row and to the
  advance after each. It gives the entries fetched, in order, and the reader after the
  last advance.
\<close>

fun full_iterations ::
  "mz_consts \<Rightarrow> 'r mz_reader_ops \<Rightarrow> nat \<Rightarrow> 'r \<Rightarrow> (mz_zip_file list \<times> 'r) option"
where
  "full_iterations K c 0 reader = Some ([], reader)"
| "full_iterations K c (Suc n) reader =
     (case mz_zip_reader_entry_get_info c reader of
        ((err, file_info), reader1) \<Rightarrow>
          if err \<noteq> MZ_OK K then None
          else
            (case mz_zip_reader_goto_next_entry c reader1 of
               (err2, reader2) \<Rightarrow>
                 if err2 \<noteq> MZ_OK K then None
                 else map_option (\<lambda>(fs, reader'). (file_info # fs, reader'))
                        (full_iterations K c n reader2)))"

text \<open>
  \<open>listing_of K c reader out0 y\<close> describes a whole run of the loop that started at
  \<open>reader\<close> with the text \<open>out0\<close> and ended with \<open>y\<close>: some number of full iterations,
  then one last iteration in which either the fetch fails, or the fetch succeeds and the
  advance does not answer \<^verbatim>\<open>MZ_OK\<close>. The text is \<open>out0\<close>, then the line of each entry
  fetched, in order, then the line of the error if there was one.
\<close>

definition listing_of ::
  "mz_consts \<Rightarrow> 'r mz_reader_ops \<Rightarrow> 'r \<Rightarrow> string list \<Rightarrow> (32 word \<times> string list \<times> 'r) \<Rightarrow> bool"
where
  "listing_of K c reader out0 y \<longleftrightarrow>
     (\<exists>n fs reader2 err file_info reader3.
        full_iterations K c n reader = Some (fs, reader2) \<and>
        mz_zip_reader_entry_get_info c reader2 = ((err, file_info), reader3) \<and>
        (if err \<noteq> MZ_OK K
         then y = (err,
                   out0 @ map (entry_line K (mz_zip_time_t_to_tm c)) fs @ [entry_info_error err],
                   reader3)
         else \<exists>err2 reader4.
                mz_zip_reader_goto_next_entry c reader3 = (err2, reader4) \<and>
                err2 \<noteq> MZ_OK K \<and>
                (if err2 = MZ_END_OF_LIST K
                 then y = (err2,
                           out0 @ map (entry_line K (mz_zip_time_t_to_tm c)) (fs @ [file_info]),
                           reader4)
                 else y = (err2,
                           out0 @ map (entry_line K (mz_zip_time_t_to_tm c)) (fs @ [file_info]) @
                             [next_entry_error err2],
                           reader4))))"

text \<open>
  Two libraries, each with its reader, give the same answers when this holds of two
  relations between their readers: \<open>Rf\<close> where the next call is a fetch, \<open>Rn\<close> where it
  is an advance. Related readers answer with the same status, after a successful fetch
  with the same entry and the same decoded date, and are related again as long as the
  run goes on.
\<close>

definition same_answers ::
  "mz_consts \<Rightarrow> 'a mz_reader_ops \<Rightarrow> 'b mz_reader_ops \<Rightarrow>
   ('a \<Rightarrow> 'b \<Rightarrow> bool) \<Rightarrow> ('a \<Rightarrow> 'b \<Rightarrow> bool) \<Rightarrow> bool"
where
  "same_answers K c1 c2 Rf Rn \<longleftrightarrow>
     (\<forall>r1 r2. Rf r1 r2 \<longrightarrow>
        (case (mz_zip_reader_entry_get_info c1 r1, mz_zip_reader_entry_get_info c2 r2) of
           (((e1, f1), s1), ((e2, f2), s2)) \<Rightarrow>
             e1 = e2 \<and>
             (e1 = MZ_OK K \<longrightarrow>
                f1 = f2 \<and>
                mz_zip_time_t_to_tm c1 (modified_date f1) =
                  mz_zip_time_t_to_tm c2 (modified_date f2) \<and>
                Rn s1 s2))) \<and>
     (\<forall>r1 r2. Rn r1 r2 \<longrightarrow>
        (case (mz_zip_reader_goto_next_entry c1 r1, mz_zip_reader_goto_next_entry c2 r2) of
           ((e1, s1), (e2, s2)) \<Rightarrow> e1 = e2 \<and> (e1 = MZ_OK K \<longrightarrow> Rf s1 s2)))"

subsection \<open>A scripted reader\<close>

text \<open>
  A stand-in for the library, to run the function on concrete inputs: the reader holds
  the answers the library will give, in order, and a mark that tells whether
  \<^verbatim>\<open>mz_zip_reader_delete\<close> was called on it. With no answer left,
  \<^verbatim>\<open>mz_zip_reader_entry_get_info\<close> fails with -107 (the library's
  \<^verbatim>\<open>MZ_EXIST_ERROR\<close>, its answer when there is no current entry) and
  \<^verbatim>\<open>mz_zip_reader_goto_next_entry\<close> answers -100 (\<^verbatim>\<open>MZ_END_OF_LIST\<close>).
\<close>

record script_reader =
  first_result :: "32 word"
  info_results :: "(32 word \<times> mz_zip_file) list"
  next_results :: "32 word list"
  deleted :: bool

definition no_file :: mz_zip_file where
  "no_file =
     \<lparr> flag = 0, compression_method = 0, modified_date = 0, crc = 0,
       compressed_size = 0, uncompressed_size = 0, external_fa = 0, filename = [] \<rparr>"

definition epoch_tm :: "64 word \<Rightarrow> tm" where
  "epoch_tm t = \<lparr> tm_min = 0, tm_hour = 0, tm_mday = 1, tm_mon = 0, tm_year = 70 \<rparr>"

definition script_ops :: "script_reader mz_reader_ops" where
  "script_ops =
     \<lparr> mz_zip_reader_goto_first_entry = (\<lambda>r. (first_result r, r)),
       mz_zip_reader_entry_get_info =
         (\<lambda>r. case info_results r of
                 [] \<Rightarrow> ((- 107, no_file), r)
               | x # xs \<Rightarrow> (x, r\<lparr>info_results := xs\<rparr>)),
       mz_zip_reader_goto_next_entry =
         (\<lambda>r. case next_results r of
                 [] \<Rightarrow> (- 100, r)
               | e # es \<Rightarrow> (e, r\<lparr>next_results := es\<rparr>)),
       mz_zip_reader_delete = (\<lambda>r. r\<lparr>deleted := True\<rparr>),
       mz_zip_time_t_to_tm = epoch_tm \<rparr>"

definition script :: "32 word \<Rightarrow> (32 word \<times> mz_zip_file) list \<Rightarrow> 32 word list \<Rightarrow> script_reader" where
  "script e infos nexts =
     \<lparr> first_result = e, info_results = infos, next_results = nexts, deleted = False \<rparr>"

text \<open>Three entries for the runs below.\<close>

definition file_a :: mz_zip_file where
  "file_a =
     \<lparr> flag = 0, compression_method = 0, modified_date = 0, crc = 0,
       compressed_size = 0, uncompressed_size = 0, external_fa = 0,
       filename = ''a.txt'' \<rparr>"

definition file_b :: mz_zip_file where
  "file_b =
     \<lparr> flag = 3, compression_method = 8, modified_date = 0, crc = 0xCAFE,
       compressed_size = 50, uncompressed_size = 200, external_fa = 0x81A4,
       filename = ''b.bin'' \<rparr>"

definition file_c :: mz_zip_file where
  "file_c =
     \<lparr> flag = 0, compression_method = 12, modified_date = 0, crc = 1,
       compressed_size = 300, uncompressed_size = 100, external_fa = 0,
       filename = ''c'' \<rparr>"

definition file_e :: mz_zip_file where
  "file_e =
     \<lparr> flag = 4, compression_method = 8, modified_date = 0, crc = 0,
       compressed_size = 2, uncompressed_size = 0, external_fa = 0,
       filename = ''empty'' \<rparr>"

text \<open>Scripts of whole runs.\<close>

definition three_with_bad_second :: script_reader where
  "three_with_bad_second = script 0 [(0, file_a), (- 1, no_file), (0, file_c)] [0, 0, - 100]"

definition three_entries :: script_reader where
  "three_entries = script 0 [(0, file_a), (0, file_b), (0, file_c)] [0, 0, - 100]"

definition two_then_broken :: script_reader where
  "two_then_broken = script 0 [(0, file_a), (0, file_b), (0, file_c)] [0, - 1, - 100]"

definition one_entry :: script_reader where
  "one_entry = script 0 [(0, file_b)] [- 100]"

definition one_entry_and_more :: script_reader where
  "one_entry_and_more = script 0 [(0, file_b), (- 1, file_c)] [- 100, 0]"

section \<open>Properties of the derived fields\<close>

lemma and6_div2: "((x::32 word) AND 6) div 2 = drop_bit 1 x AND 3"
proof -
  have "(x AND 6) div 2 = drop_bit 1 (x AND 6)"
    by (simp add: drop_bit_eq_div)
  also have "\<dots> = drop_bit 1 x AND 3"
    by (rule bit_word_eqI) (simp add: bit_simps)
  finally show ?thesis .
qed

lemma word_le3_cases: "(w::32 word) \<le> 3 \<Longrightarrow> w = 0 \<or> w = 1 \<or> w = 2 \<or> w = 3"
proof -
  assume "w \<le> 3"
  then have "unat w \<le> 3" by (simp add: word_le_nat_alt)
  then have "unat w = 0 \<or> unat w = 1 \<or> unat w = 2 \<or> unat w = 3" by arith
  then show ?thesis
    by (simp add: word_unat_eq_iff)
qed

lemma level_cases: "level fi = 0 \<or> level fi = 1 \<or> level fi = 2 \<or> level fi = 3"
proof -
  have "drop_bit 1 (flag fi) AND 3 \<le> 3" by (rule word_and_le1)
  then have "(flag fi AND 6) div 2 = 0 \<or> (flag fi AND 6) div 2 = 1 \<or>
             (flag fi AND 6) div 2 = 2 \<or> (flag fi AND 6) div 2 = 3"
    unfolding and6_div2 by (rule word_le3_cases)
  then show ?thesis
    unfolding level_def by (elim disjE) simp_all
qed

lemma deflate_method_level: "deflate_method (level fi) \<noteq> ''Defl:?''"
  using level_cases [of fi] by (elim disjE) (simp_all add: deflate_method_def)

text \<open>
  Claim C9. Whatever the flags word, the level computed at line 61 is 0, 1, 2 or 3; it is
  the two-bit field \<open>(flags >> 1) & 3\<close>. So the last branch of the chain of comparisons is
  never taken: no entry gets the label \<open>Defl:?\<close>.
\<close>

theorem deflate_level_in_range:
  "(level fi = 0 \<or> level fi = 1 \<or> level fi = 2 \<or> level fi = 3) \<and>
   level fi = ucast (drop_bit 1 (flag fi) AND 3) \<and>
   deflate_method (level fi) \<noteq> ''Defl:?'' \<and>
   string_method K fi \<noteq> ''Defl:?''"
proof (intro conjI)
  show "level fi = 0 \<or> level fi = 1 \<or> level fi = 2 \<or> level fi = 3"
    by (rule level_cases)
  show "level fi = ucast (drop_bit 1 (flag fi) AND 3)"
    by (simp add: level_def and6_div2)
  show "deflate_method (level fi) \<noteq> ''Defl:?''"
    by (rule deflate_method_level)
  show "string_method K fi \<noteq> ''Defl:?''"
    using deflate_method_level [of fi] by (simp add: string_method_def)
qed

lemma sint_times_100:
  fixes c :: "64 word"
  assumes "0 \<le> sint c" and "sint c * 100 < 2 ^ 63"
  shows "sint (c * 100) = sint c * 100"
proof -
  have "sint (c * 100) = signed_take_bit 63 (sint c * 100)"
    by (simp add: sint_word_ariths)
  also have "\<dots> = sint c * 100"
    using assms by (intro signed_take_bit_int_eq_self) simp_all
  finally show ?thesis .
qed

lemma sdiv_nonneg: "0 \<le> (a::int) \<Longrightarrow> 0 < b \<Longrightarrow> a sdiv b = a div b"
  by (simp add: signed_divide_int_def sgn_if)

lemma ratio_zero: "uncompressed_size fi = 0 \<Longrightarrow> ratio fi = 0"
  by (simp add: ratio_def)

lemma ratio_positive:
  assumes u: "0 < sint (uncompressed_size fi)"
    and c: "0 \<le> sint (compressed_size fi)"
    and b: "sint (compressed_size fi) * 100 < 2 ^ 63"
  shows "ratio fi = word_of_int (sint (compressed_size fi) * 100 div sint (uncompressed_size fi))"
proof -
  have "0 <s uncompressed_size fi"
    using u by (simp add: word_sless_alt)
  moreover have "sint (compressed_size fi * 100) = sint (compressed_size fi) * 100"
    using c b by (rule sint_times_100)
  moreover have "sint (compressed_size fi) * 100 sdiv sint (uncompressed_size fi) =
                 sint (compressed_size fi) * 100 div sint (uncompressed_size fi)"
    using c u by (intro sdiv_nonneg) simp_all
  ultimately show ?thesis
    by (simp add: ratio_def)
qed

text \<open>
  Claim C5. The ratio printed is 0 when the uncompressed size is 0, whatever the
  compressed size. When the uncompressed size is positive, and the compressed size is not
  negative and its product with 100 fits the 64-bit signed size type, the ratio is the
  floor of \<open>compressed * 100 / uncompressed\<close> kept to 32 bits: there is no clamp to 100,
  and a quotient below \<open>2 ^ 32\<close> is printed as it is.
\<close>

theorem ratio_floor:
  "(uncompressed_size fi = 0 \<longrightarrow> ratio fi = 0) \<and>
   (0 < sint (uncompressed_size fi) \<and> 0 \<le> sint (compressed_size fi) \<and>
    sint (compressed_size fi) * 100 < 2 ^ 63 \<longrightarrow>
      uint (ratio fi) =
        (sint (compressed_size fi) * 100 div sint (uncompressed_size fi)) mod 2 ^ 32) \<and>
   (0 < sint (uncompressed_size fi) \<and> 0 \<le> sint (compressed_size fi) \<and>
    sint (compressed_size fi) * 100 < 2 ^ 63 \<and>
    sint (compressed_size fi) * 100 div sint (uncompressed_size fi) < 2 ^ 32 \<longrightarrow>
      uint (ratio fi) = sint (compressed_size fi) * 100 div sint (uncompressed_size fi))"
proof (intro conjI impI)
  assume "uncompressed_size fi = 0"
  then show "ratio fi = 0" by (rule ratio_zero)
next
  assume "0 < sint (uncompressed_size fi) \<and> 0 \<le> sint (compressed_size fi) \<and>
    sint (compressed_size fi) * 100 < 2 ^ 63"
  then have "ratio fi = word_of_int (sint (compressed_size fi) * 100 div sint (uncompressed_size fi))"
    by (intro ratio_positive) simp_all
  then show "uint (ratio fi) =
        (sint (compressed_size fi) * 100 div sint (uncompressed_size fi)) mod 2 ^ 32"
    by (simp add: uint_word_of_int take_bit_eq_mod)
next
  assume a: "0 < sint (uncompressed_size fi) \<and> 0 \<le> sint (compressed_size fi) \<and>
    sint (compressed_size fi) * 100 < 2 ^ 63 \<and>
    sint (compressed_size fi) * 100 div sint (uncompressed_size fi) < 2 ^ 32"
  then have r: "ratio fi = word_of_int (sint (compressed_size fi) * 100 div sint (uncompressed_size fi))"
    by (intro ratio_positive) simp_all
  have "0 \<le> sint (compressed_size fi) * 100 div sint (uncompressed_size fi)"
    using a by (intro pos_imp_zdiv_nonneg_iff [THEN iffD2]) simp_all
  with a r show "uint (ratio fi) = sint (compressed_size fi) * 100 div sint (uncompressed_size fi)"
    by (simp add: uint_word_of_int take_bit_eq_mod)
qed

theorem ratio_floor_witness:
  "uncompressed_size file_e = 0 \<and> compressed_size file_e = 2 \<and> ratio file_e = 0 \<and>
   0 < sint (uncompressed_size file_b) \<and> 0 \<le> sint (compressed_size file_b) \<and>
   sint (compressed_size file_b) * 100 < 2 ^ 63 \<and>
   sint (compressed_size file_b) * 100 div sint (uncompressed_size file_b) < 2 ^ 32 \<and>
   uint (ratio file_b) = 25 \<and>
   0 < sint (uncompressed_size file_c) \<and> 0 \<le> sint (compressed_size file_c) \<and>
   sint (compressed_size file_c) * 100 < 2 ^ 63 \<and>
   sint (compressed_size file_c) * 100 div sint (uncompressed_size file_c) < 2 ^ 32 \<and>
   uint (ratio file_c) = 300"
  using ratio_floor [of file_e] ratio_floor [of file_b] ratio_floor [of file_c]
  by (simp add: file_e_def file_b_def file_c_def)

text \<open>
  Claim C6. The label of the compression method follows the table: Store gives
  \<open>Stored\<close>; Deflate gives the label of its level, which is \<open>Defl:N\<close> for 0, \<open>Defl:X\<close>
  for 1, \<open>Defl:F\<close> for 2 and 3 and \<open>Defl:?\<close> for any other value; BZip2 gives \<open>BZip2\<close>;
  LZMA gives \<open>LZMA\<close>; any other method code gives \<open>?\<close>.
\<close>

theorem method_label_table:
  assumes "wf_consts K"
  shows "(compression_method fi = MZ_COMPRESS_METHOD_STORE K \<longrightarrow>
            string_method K fi = ''Stored'') \<and>
         (compression_method fi = MZ_COMPRESS_METHOD_DEFLATE K \<longrightarrow>
            string_method K fi = deflate_method (level fi)) \<and>
         deflate_method 0 = ''Defl:N'' \<and> deflate_method 1 = ''Defl:X'' \<and>
         deflate_method 2 = ''Defl:F'' \<and> deflate_method 3 = ''Defl:F'' \<and>
         (l \<noteq> 0 \<and> l \<noteq> 1 \<and> l \<noteq> 2 \<and> l \<noteq> 3 \<longrightarrow> deflate_method l = ''Defl:?'') \<and>
         (compression_method fi = MZ_COMPRESS_METHOD_BZIP2 K \<longrightarrow>
            string_method K fi = ''BZip2'') \<and>
         (compression_method fi = MZ_COMPRESS_METHOD_LZMA K \<longrightarrow>
            string_method K fi = ''LZMA'') \<and>
         (compression_method fi \<noteq> MZ_COMPRESS_METHOD_STORE K \<and>
          compression_method fi \<noteq> MZ_COMPRESS_METHOD_DEFLATE K \<and>
          compression_method fi \<noteq> MZ_COMPRESS_METHOD_BZIP2 K \<and>
          compression_method fi \<noteq> MZ_COMPRESS_METHOD_LZMA K \<longrightarrow>
            string_method K fi = ''?'')"
  using assms by (auto simp add: wf_consts_def string_method_def deflate_method_def)

theorem method_label_table_witness:
  "wf_consts minizip_consts \<and>
   compression_method file_a = MZ_COMPRESS_METHOD_STORE minizip_consts \<and>
   string_method minizip_consts file_a = ''Stored'' \<and>
   compression_method file_b = MZ_COMPRESS_METHOD_DEFLATE minizip_consts \<and>
   string_method minizip_consts file_b = ''Defl:X'' \<and>
   string_method minizip_consts file_e = ''Defl:F'' \<and>
   ((4::16 word) \<noteq> 0 \<and> (4::16 word) \<noteq> 1 \<and> (4::16 word) \<noteq> 2 \<and> (4::16 word) \<noteq> 3) \<and>
   deflate_method 4 = ''Defl:?'' \<and>
   compression_method file_c = MZ_COMPRESS_METHOD_BZIP2 minizip_consts \<and>
   string_method minizip_consts file_c = ''BZip2'' \<and>
   compression_method (file_c\<lparr>compression_method := 14\<rparr>) =
     MZ_COMPRESS_METHOD_LZMA minizip_consts \<and>
   string_method minizip_consts (file_c\<lparr>compression_method := 14\<rparr>) = ''LZMA'' \<and>
   compression_method (file_c\<lparr>compression_method := 99\<rparr>) \<noteq>
     MZ_COMPRESS_METHOD_STORE minizip_consts \<and>
   compression_method (file_c\<lparr>compression_method := 99\<rparr>) \<noteq>
     MZ_COMPRESS_METHOD_DEFLATE minizip_consts \<and>
   compression_method (file_c\<lparr>compression_method := 99\<rparr>) \<noteq>
     MZ_COMPRESS_METHOD_BZIP2 minizip_consts \<and>
   compression_method (file_c\<lparr>compression_method := 99\<rparr>) \<noteq>
     MZ_COMPRESS_METHOD_LZMA minizip_consts \<and>
   string_method minizip_consts (file_c\<lparr>compression_method := 99\<rparr>) = ''?''"
proof -
  have wf: "wf_consts minizip_consts"
    by (simp add: wf_consts_def minizip_consts_def)
  show ?thesis
    using wf
      method_label_table [OF wf, of file_a 4]
      method_label_table [OF wf, of file_b 4]
      method_label_table [OF wf, of file_e 4]
      method_label_table [OF wf, of file_c 4]
      method_label_table [OF wf, of "file_c\<lparr>compression_method := 14\<rparr>" 4]
      method_label_table [OF wf, of "file_c\<lparr>compression_method := 99\<rparr>" 4]
    by (simp add: minizip_consts_def file_a_def file_b_def file_c_def file_e_def
          level_def)
qed

section \<open>Runs of the function\<close>

subsection \<open>Evaluating concrete runs\<close>

lemma pad_numeral: "replicate (numeral k) c = replicate (pred_numeral k) c @ [c]"
  by (simp add: numeral_eq_Suc replicate_append_same)

lemmas fmt_defs = fmt_d_def fmt_u_def fmt_x_def fmt_s_def pad_left_def pad_numeral
lemmas field_defs = ratio_def string_method_def crypt_def level_def deflate_method_def word_sless_alt
lemmas script_defs = script_ops_def script_def minizip_consts_def

subsection \<open>One step of the loop, and the two ways into it\<close>

lemma enumerate_entries_fetch_failed:
  assumes "mz_zip_reader_entry_get_info c reader = ((err, file_info), reader1)"
    and "err \<noteq> MZ_OK K"
  shows "enumerate_entries K c reader out = Some (err, out @ [entry_info_error err], reader1)"
  using assms by (subst enumerate_entries.simps) simp

lemma enumerate_entries_advance:
  assumes "mz_zip_reader_entry_get_info c reader = ((MZ_OK K, file_info), reader1)"
    and "mz_zip_reader_goto_next_entry c reader1 = (err2, reader2)"
  shows "enumerate_entries K c reader out =
     (if err2 = MZ_OK K
      then enumerate_entries K c reader2 (out @ [entry_line K (mz_zip_time_t_to_tm c) file_info])
      else if err2 = MZ_END_OF_LIST K
      then Some (err2, out @ [entry_line K (mz_zip_time_t_to_tm c) file_info], reader2)
      else Some (err2, out @ [entry_line K (mz_zip_time_t_to_tm c) file_info, next_entry_error err2], reader2))"
  using assms by (subst enumerate_entries.simps) simp

lemma enumerate_entries_full_iterations:
  "full_iterations K c n reader = Some (fs, reader') \<Longrightarrow>
   enumerate_entries K c reader out =
     enumerate_entries K c reader' (out @ map (entry_line K (mz_zip_time_t_to_tm c)) fs)"
proof (induction n arbitrary: reader out fs)
  case 0
  then show ?case by simp
next
  case (Suc n)
  obtain err file_info reader1 where gi: "mz_zip_reader_entry_get_info c reader = ((err, file_info), reader1)"
    by (metis prod.exhaust)
  obtain err2 reader2 where gn: "mz_zip_reader_goto_next_entry c reader1 = (err2, reader2)"
    by (metis prod.exhaust)
  from Suc.prems gi gn have ok: "err = MZ_OK K" "err2 = MZ_OK K"
    by (auto split: if_splits)
  from Suc.prems gi gn ok obtain fs' where
    fs: "full_iterations K c n reader2 = Some (fs', reader')" "fs = file_info # fs'"
    by auto
  have "enumerate_entries K c reader out =
        enumerate_entries K c reader2 (out @ [entry_line K (mz_zip_time_t_to_tm c) file_info])"
    using enumerate_entries_advance [of c reader K file_info reader1 err2 reader2 out] gi gn ok by simp
  also have "\<dots> = enumerate_entries K c reader'
        ((out @ [entry_line K (mz_zip_time_t_to_tm c) file_info]) @ map (entry_line K (mz_zip_time_t_to_tm c)) fs')"
    by (rule Suc.IH [OF fs(1)])
  finally show ?case using fs(2) by simp
qed

lemma full_iterations_length:
  "full_iterations K c n reader = Some (fs, reader') \<Longrightarrow> length fs = n"
  by (induction n arbitrary: reader fs) (auto split: prod.splits if_splits)

lemma list_zip_archive_first_failed:
  assumes "mz_zip_reader_goto_first_entry c reader = (err, reader1)"
    and "err \<noteq> MZ_OK K" and "err \<noteq> MZ_END_OF_LIST K"
  shows "list_zip_archive K c reader =
           Some (err, [first_entry_error err], mz_zip_reader_delete c reader1)"
  using assms by (simp add: list_zip_archive_def)

lemma list_zip_archive_listing:
  assumes "mz_zip_reader_goto_first_entry c reader = (err, reader1)"
    and "err = MZ_OK K \<or> err = MZ_END_OF_LIST K"
  shows "list_zip_archive K c reader =
           map_option (\<lambda>(err', out, reader'). (return_value K err', out, reader'))
             (enumerate_entries K c reader1 header_lines)"
  using assms by (auto simp add: list_zip_archive_def)

subsection \<open>Failure of the first positioning\<close>

text \<open>
  Claim C2, as amended. When going to the first entry answers a status other than
  \<^verbatim>\<open>MZ_OK\<close> and \<^verbatim>\<open>MZ_END_OF_LIST\<close>, the function returns that status and the only
  text it prints is the line \<open>Error <status> going to first entry in archive\<close>: neither
  header line and no entry line.
\<close>

theorem first_entry_failure_prints_no_header:
  assumes "mz_zip_reader_goto_first_entry c reader = (err, reader1)"
    and "err \<noteq> MZ_OK K" and "err \<noteq> MZ_END_OF_LIST K"
  shows "observed (list_zip_archive K c reader) = Some (err, [first_entry_error err])"
  using list_zip_archive_first_failed [OF assms] by (simp add: observed_def)

theorem first_entry_failure_prints_no_header_witness:
  "mz_zip_reader_goto_first_entry script_ops (script (- 103) [(0, file_a)] [- 100]) =
     (- 103, script (- 103) [(0, file_a)] [- 100]) \<and>
   (- 103 :: 32 word) \<noteq> MZ_OK minizip_consts \<and>
   (- 103 :: 32 word) \<noteq> MZ_END_OF_LIST minizip_consts \<and>
   observed (list_zip_archive minizip_consts script_ops (script (- 103) [(0, file_a)] [- 100])) =
     Some (- 103, [''Error -103 going to first entry in archive'' @ [CHR 0x0A]])"
proof -
  have a: "mz_zip_reader_goto_first_entry script_ops (script (- 103) [(0, file_a)] [- 100]) =
     (- 103, script (- 103) [(0, file_a)] [- 100])"
    by (simp add: script_defs)
  have b: "(- 103 :: 32 word) \<noteq> MZ_OK minizip_consts"
    by (simp add: minizip_consts_def)
  have c: "(- 103 :: 32 word) \<noteq> MZ_END_OF_LIST minizip_consts"
    by (simp add: minizip_consts_def)
  show ?thesis
    using a b c first_entry_failure_prints_no_header [OF a b c]
    by (simp add: first_entry_error_def fmt_defs)
qed

text \<open>
  Claim C2 as stated says that the two header lines have been printed by then. They have
  not: the status is tested at line 24, before the header is printed at lines 31 and 32.
\<close>

theorem header_on_first_entry_failure_counterexample:
  "observed (list_zip_archive minizip_consts script_ops (script (- 1) [] [])) =
     Some (- 1, [''Error -1 going to first entry in archive'' @ [CHR 0x0A]]) \<and>
   \<not> set header_lines \<subseteq> set [''Error -1 going to first entry in archive'' @ [CHR 0x0A]]"
  by (simp add: observed_def list_zip_archive_def script_defs first_entry_error_def fmt_defs
        header_lines_def)

text \<open>
  Claim C3 says the function never deletes the reader of its caller. On the first error
  path it does (line 27), while the two error paths inside the loop leave the reader
  alone: when going to the first entry answers -103 (the library's
  \<^verbatim>\<open>MZ_FORMAT_ERROR\<close>), the reader that was not deleted before the call is deleted
  after it.
\<close>

theorem first_entry_failure_deletes_reader:
  "list_zip_archive minizip_consts script_ops (script (- 103) [] []) =
     Some (- 103, [''Error -103 going to first entry in archive'' @ [CHR 0x0A]],
           \<lparr> first_result = - 103, info_results = [], next_results = [], deleted = True \<rparr>) \<and>
   deleted (script (- 103) [] []) = False"
  by (simp add: list_zip_archive_def script_defs first_entry_error_def fmt_defs)

subsection \<open>The empty archive\<close>

text \<open>
  Claim C1 says that an archive with no entry gives the two header lines, nothing else,
  and success. The function lets \<^verbatim>\<open>MZ_END_OF_LIST\<close> pass the test of line 24 and maps it
  to \<^verbatim>\<open>MZ_OK\<close> at line 104, but the loop is a \<^verbatim>\<open>do ... while\<close>: its body runs once
  all the same and fetches an entry that is not there. With the library's answer to that
  fetch, -107, the function prints a third line and returns -107.
\<close>

theorem empty_archive_reports_error:
  "list_zip_archive minizip_consts script_ops (script (- 100) [] []) =
     Some (- 107,
           header_lines @ [''Error -107 getting entry info in archive'' @ [CHR 0x0A]],
           script (- 100) [] []) \<and>
   (- 107 :: 32 word) \<noteq> MZ_OK minizip_consts"
  by (simp add: list_zip_archive_def enumerate_entries.simps script_defs return_value_def
        entry_info_error_def fmt_defs)

subsection \<open>Failure of a fetch\<close>

text \<open>
  Claim C7. Let going to the first entry answer \<^verbatim>\<open>MZ_OK\<close> or \<^verbatim>\<open>MZ_END_OF_LIST\<close>, let
  \<open>n\<close> iterations go through with entries \<open>fs\<close>, and let the next fetch, on entry
  \<open>n + 1\<close>, fail. A failed fetch answers a status other than \<^verbatim>\<open>MZ_OK\<close> and other than
  \<^verbatim>\<open>MZ_END_OF_LIST\<close>, which only the two positioning calls answer. Then the function
  prints the header, the lines of the \<open>n\<close> entries \<open>fs\<close> in order, and the line
  \<open>Error <status> getting entry info in archive\<close>; it prints no line for entry \<open>n + 1\<close>
  or a later one, leaves the reader as the failed fetch left it (it does not advance), and
  returns the status of the fetch.
\<close>

theorem fetch_failure_stops_listing:
  assumes "mz_zip_reader_goto_first_entry c reader = (err0, reader1)"
    and "err0 = MZ_OK K \<or> err0 = MZ_END_OF_LIST K"
    and "full_iterations K c n reader1 = Some (fs, reader2)"
    and "mz_zip_reader_entry_get_info c reader2 = ((err, file_info), reader3)"
    and "err \<noteq> MZ_OK K" and "err \<noteq> MZ_END_OF_LIST K"
  shows "list_zip_archive K c reader =
           Some (err,
                 header_lines @ map (entry_line K (mz_zip_time_t_to_tm c)) fs @
                   [entry_info_error err],
                 reader3) \<and>
         length fs = n"
proof -
  have "enumerate_entries K c reader1 header_lines =
        enumerate_entries K c reader2
          (header_lines @ map (entry_line K (mz_zip_time_t_to_tm c)) fs)"
    using assms(3) by (rule enumerate_entries_full_iterations)
  also have "\<dots> = Some (err,
      (header_lines @ map (entry_line K (mz_zip_time_t_to_tm c)) fs) @ [entry_info_error err],
      reader3)"
    using assms(4,5) by (rule enumerate_entries_fetch_failed)
  finally have "list_zip_archive K c reader =
      Some (return_value K err,
        header_lines @ map (entry_line K (mz_zip_time_t_to_tm c)) fs @ [entry_info_error err],
        reader3)"
    using list_zip_archive_listing [OF assms(1,2)] by simp
  moreover have "return_value K err = err"
    using assms(6) by (simp add: return_value_def)
  moreover have "length fs = n"
    using assms(3) by (rule full_iterations_length)
  ultimately show ?thesis by simp
qed

theorem fetch_failure_stops_listing_witness:
  "mz_zip_reader_goto_first_entry script_ops three_with_bad_second =
     (0, three_with_bad_second) \<and>
   (0 :: 32 word) = MZ_OK minizip_consts \<and>
   full_iterations minizip_consts script_ops (Suc 0) three_with_bad_second =
     Some ([file_a], script 0 [(- 1, no_file), (0, file_c)] [0, - 100]) \<and>
   mz_zip_reader_entry_get_info script_ops (script 0 [(- 1, no_file), (0, file_c)] [0, - 100]) =
     ((- 1, no_file), script 0 [(0, file_c)] [0, - 100]) \<and>
   (- 1 :: 32 word) \<noteq> MZ_OK minizip_consts \<and>
   (- 1 :: 32 word) \<noteq> MZ_END_OF_LIST minizip_consts \<and>
   list_zip_archive minizip_consts script_ops three_with_bad_second =
     Some (- 1,
           header_lines @
           [''           0            0    0% Stored         0 01-01-70 00:00 00000000   a.txt'' @ [CHR 0x0A],
            ''Error -1 getting entry info in archive'' @ [CHR 0x0A]],
           script 0 [(0, file_c)] [0, - 100])"
proof -
  have a: "mz_zip_reader_goto_first_entry script_ops three_with_bad_second =
     (0, three_with_bad_second)"
    by (simp add: three_with_bad_second_def script_defs)
  have j: "(0 :: 32 word) = MZ_OK minizip_consts"
    by (simp add: minizip_consts_def)
  have b: "(0 :: 32 word) = MZ_OK minizip_consts \<or>
           (0 :: 32 word) = MZ_END_OF_LIST minizip_consts"
    using j by (rule disjI1)
  have c: "full_iterations minizip_consts script_ops (Suc 0) three_with_bad_second =
     Some ([file_a], script 0 [(- 1, no_file), (0, file_c)] [0, - 100])"
    by (simp add: three_with_bad_second_def script_defs)
  have d: "mz_zip_reader_entry_get_info script_ops (script 0 [(- 1, no_file), (0, file_c)] [0, - 100]) =
     ((- 1, no_file), script 0 [(0, file_c)] [0, - 100])"
    by (simp add: script_defs)
  have e: "(- 1 :: 32 word) \<noteq> MZ_OK minizip_consts"
    by (simp add: minizip_consts_def)
  have f: "(- 1 :: 32 word) \<noteq> MZ_END_OF_LIST minizip_consts"
    by (simp add: minizip_consts_def)
  have g: "entry_line minizip_consts epoch_tm file_a =
    ''           0            0    0% Stored         0 01-01-70 00:00 00000000   a.txt'' @ [CHR 0x0A]"
    by (simp add: entry_line_def file_a_def epoch_tm_def fmt_defs field_defs minizip_consts_def)
  have h: "entry_info_error (- 1) = ''Error -1 getting entry info in archive'' @ [CHR 0x0A]"
    by (simp add: entry_info_error_def fmt_defs)
  have i: "mz_zip_time_t_to_tm script_ops = epoch_tm"
    by (simp add: script_ops_def)
  show ?thesis
    using a j c d e f fetch_failure_stops_listing [OF a b c d e f]
    by (simp add: g h i)
qed

subsection \<open>The answers of the advance\<close>

lemma return_value_not_end: "MZ_OK K \<noteq> MZ_END_OF_LIST K \<Longrightarrow> return_value K err \<noteq> MZ_END_OF_LIST K"
  by (simp add: return_value_def)

lemma list_zip_archive_not_end:
  assumes "MZ_OK K \<noteq> MZ_END_OF_LIST K"
    and "list_zip_archive K c reader = Some (rc, out, reader')"
  shows "rc \<noteq> MZ_END_OF_LIST K"
  using assms
  by (auto simp add: list_zip_archive_def return_value_def split: prod.splits if_splits)

text \<open>
  Claim C8. After a successful fetch, when the advance answers \<^verbatim>\<open>MZ_OK\<close> the run goes on
  with the next iteration of the loop, from the reader the advance left and with every
  line printed so far; when it answers \<^verbatim>\<open>MZ_END_OF_LIST\<close> the function stops and returns
  \<^verbatim>\<open>MZ_OK\<close>; when it answers any other status the function stops, keeps the lines
  already printed, adds the line \<open>Error <status> going to next entry in archive\<close> and
  returns the status. No run returns \<^verbatim>\<open>MZ_END_OF_LIST\<close>.
\<close>

theorem advance_outcomes:
  assumes "wf_consts K"
    and "mz_zip_reader_goto_first_entry c reader = (err0, reader1)"
    and "err0 = MZ_OK K \<or> err0 = MZ_END_OF_LIST K"
    and "full_iterations K c n reader1 = Some (fs, reader2)"
    and "mz_zip_reader_entry_get_info c reader2 = ((MZ_OK K, file_info), reader3)"
    and "mz_zip_reader_goto_next_entry c reader3 = (err, reader4)"
  shows "(err = MZ_OK K \<longrightarrow>
            list_zip_archive K c reader =
              map_option (\<lambda>(err', out, reader'). (return_value K err', out, reader'))
                (enumerate_entries K c reader4
                   (header_lines @ map (entry_line K (mz_zip_time_t_to_tm c)) (fs @ [file_info])))) \<and>
         (err = MZ_END_OF_LIST K \<longrightarrow>
            list_zip_archive K c reader =
              Some (MZ_OK K,
                    header_lines @ map (entry_line K (mz_zip_time_t_to_tm c)) (fs @ [file_info]),
                    reader4)) \<and>
         (err \<noteq> MZ_OK K \<and> err \<noteq> MZ_END_OF_LIST K \<longrightarrow>
            list_zip_archive K c reader =
              Some (err,
                    header_lines @ map (entry_line K (mz_zip_time_t_to_tm c)) (fs @ [file_info]) @
                      [next_entry_error err],
                    reader4)) \<and>
         (\<forall>rc out reader'. list_zip_archive K c reader = Some (rc, out, reader') \<longrightarrow>
            rc \<noteq> MZ_END_OF_LIST K)"
proof -
  have ne: "MZ_OK K \<noteq> MZ_END_OF_LIST K"
    using assms(1) by (simp add: wf_consts_def)
  have "enumerate_entries K c reader1 header_lines =
        enumerate_entries K c reader2
          (header_lines @ map (entry_line K (mz_zip_time_t_to_tm c)) fs)"
    using assms(4) by (rule enumerate_entries_full_iterations)
  then have run: "list_zip_archive K c reader =
      map_option (\<lambda>(err', out, reader'). (return_value K err', out, reader'))
        (enumerate_entries K c reader2
          (header_lines @ map (entry_line K (mz_zip_time_t_to_tm c)) fs))"
    using list_zip_archive_listing [OF assms(2,3)] by simp
  note step = enumerate_entries_advance [OF assms(5,6),
      of "header_lines @ map (entry_line K (mz_zip_time_t_to_tm c)) fs"]
  show ?thesis
  proof (intro conjI impI allI)
    assume "err = MZ_OK K"
    with run step show "list_zip_archive K c reader =
      map_option (\<lambda>(err', out, reader'). (return_value K err', out, reader'))
        (enumerate_entries K c reader4
           (header_lines @ map (entry_line K (mz_zip_time_t_to_tm c)) (fs @ [file_info])))"
      by simp
  next
    assume "err = MZ_END_OF_LIST K"
    with run step ne show "list_zip_archive K c reader =
      Some (MZ_OK K,
            header_lines @ map (entry_line K (mz_zip_time_t_to_tm c)) (fs @ [file_info]),
            reader4)"
      by (simp add: return_value_def)
  next
    assume "err \<noteq> MZ_OK K \<and> err \<noteq> MZ_END_OF_LIST K"
    with run step show "list_zip_archive K c reader =
      Some (err,
            header_lines @ map (entry_line K (mz_zip_time_t_to_tm c)) (fs @ [file_info]) @
              [next_entry_error err],
            reader4)"
      by (simp add: return_value_def)
  next
    fix rc out reader'
    assume "list_zip_archive K c reader = Some (rc, out, reader')"
    with ne show "rc \<noteq> MZ_END_OF_LIST K"
      by (rule list_zip_archive_not_end)
  qed
qed

lemma minizip_OK: "MZ_OK minizip_consts = 0"
  by (simp add: minizip_consts_def)

lemma minizip_END: "MZ_END_OF_LIST minizip_consts = - 100"
  by (simp add: minizip_consts_def)

lemma wf_minizip_consts: "wf_consts minizip_consts"
  by (simp add: wf_consts_def minizip_consts_def)

theorem advance_outcomes_witness:
  "wf_consts minizip_consts \<and>
   mz_zip_reader_goto_first_entry script_ops three_entries = (0, three_entries) \<and>
   full_iterations minizip_consts script_ops 0 three_entries = Some ([], three_entries) \<and>
   mz_zip_reader_entry_get_info script_ops three_entries =
     ((0, file_a), script 0 [(0, file_b), (0, file_c)] [0, 0, - 100]) \<and>
   mz_zip_reader_goto_next_entry script_ops (script 0 [(0, file_b), (0, file_c)] [0, 0, - 100]) =
     (0, script 0 [(0, file_b), (0, file_c)] [0, - 100]) \<and>
   list_zip_archive minizip_consts script_ops three_entries =
     map_option (\<lambda>(err', out, reader'). (return_value minizip_consts err', out, reader'))
       (enumerate_entries minizip_consts script_ops
          (script 0 [(0, file_b), (0, file_c)] [0, - 100])
          (header_lines @ [entry_line minizip_consts epoch_tm file_a])) \<and>
   full_iterations minizip_consts script_ops (Suc (Suc 0)) three_entries =
     Some ([file_a, file_b], script 0 [(0, file_c)] [- 100]) \<and>
   mz_zip_reader_entry_get_info script_ops (script 0 [(0, file_c)] [- 100]) =
     ((0, file_c), script 0 [] [- 100]) \<and>
   mz_zip_reader_goto_next_entry script_ops (script 0 [] [- 100]) = (- 100, script 0 [] []) \<and>
   list_zip_archive minizip_consts script_ops three_entries =
     Some (0, header_lines @ map (entry_line minizip_consts epoch_tm) [file_a, file_b, file_c],
           script 0 [] []) \<and>
   (0 :: 32 word) \<noteq> MZ_END_OF_LIST minizip_consts \<and>
   mz_zip_reader_goto_first_entry script_ops two_then_broken = (0, two_then_broken) \<and>
   full_iterations minizip_consts script_ops (Suc 0) two_then_broken =
     Some ([file_a], script 0 [(0, file_b), (0, file_c)] [- 1, - 100]) \<and>
   mz_zip_reader_entry_get_info script_ops (script 0 [(0, file_b), (0, file_c)] [- 1, - 100]) =
     ((0, file_b), script 0 [(0, file_c)] [- 1, - 100]) \<and>
   mz_zip_reader_goto_next_entry script_ops (script 0 [(0, file_c)] [- 1, - 100]) =
     (- 1, script 0 [(0, file_c)] [- 100]) \<and>
   list_zip_archive minizip_consts script_ops two_then_broken =
     Some (- 1,
           header_lines @ map (entry_line minizip_consts epoch_tm) [file_a, file_b] @
             [''Error -1 going to next entry in archive'' @ [CHR 0x0A]],
           script 0 [(0, file_c)] [- 100])"
proof -
  note wf = wf_minizip_consts
  have ok: "(0 :: 32 word) = MZ_OK minizip_consts \<or> (0 :: 32 word) = MZ_END_OF_LIST minizip_consts"
    by (simp add: minizip_OK)
  have tm: "mz_zip_time_t_to_tm script_ops = epoch_tm"
    by (simp add: script_ops_def)
  have a1: "mz_zip_reader_goto_first_entry script_ops three_entries = (0, three_entries)"
    by (simp add: three_entries_def script_ops_def script_def)
  have a2: "full_iterations minizip_consts script_ops 0 three_entries = Some ([], three_entries)"
    by simp
  have a3: "mz_zip_reader_entry_get_info script_ops three_entries =
     ((MZ_OK minizip_consts, file_a), script 0 [(0, file_b), (0, file_c)] [0, 0, - 100])"
    by (simp add: three_entries_def script_ops_def script_def minizip_OK)
  have a4: "mz_zip_reader_goto_next_entry script_ops (script 0 [(0, file_b), (0, file_c)] [0, 0, - 100]) =
     (0, script 0 [(0, file_b), (0, file_c)] [0, - 100])"
    by (simp add: script_ops_def script_def)
  have b2: "full_iterations minizip_consts script_ops (Suc (Suc 0)) three_entries =
     Some ([file_a, file_b], script 0 [(0, file_c)] [- 100])"
    by (simp add: three_entries_def script_ops_def script_def minizip_OK)
  have b3: "mz_zip_reader_entry_get_info script_ops (script 0 [(0, file_c)] [- 100]) =
     ((MZ_OK minizip_consts, file_c), script 0 [] [- 100])"
    by (simp add: script_ops_def script_def minizip_OK)
  have b4: "mz_zip_reader_goto_next_entry script_ops (script 0 [] [- 100]) = (- 100, script 0 [] [])"
    by (simp add: script_ops_def script_def)
  have c1: "mz_zip_reader_goto_first_entry script_ops two_then_broken = (0, two_then_broken)"
    by (simp add: two_then_broken_def script_ops_def script_def)
  have c2: "full_iterations minizip_consts script_ops (Suc 0) two_then_broken =
     Some ([file_a], script 0 [(0, file_b), (0, file_c)] [- 1, - 100])"
    by (simp add: two_then_broken_def script_ops_def script_def minizip_OK)
  have c3: "mz_zip_reader_entry_get_info script_ops (script 0 [(0, file_b), (0, file_c)] [- 1, - 100]) =
     ((MZ_OK minizip_consts, file_b), script 0 [(0, file_c)] [- 1, - 100])"
    by (simp add: script_ops_def script_def minizip_OK)
  have c4: "mz_zip_reader_goto_next_entry script_ops (script 0 [(0, file_c)] [- 1, - 100]) =
     (- 1, script 0 [(0, file_c)] [- 100])"
    by (simp add: script_ops_def script_def)
  have e: "next_entry_error (- 1) = ''Error -1 going to next entry in archive'' @ [CHR 0x0A]"
    by (simp add: next_entry_error_def fmt_defs)
  show ?thesis
    using wf a1 a2 a3 a4 b2 b3 b4 c1 c2 c3 c4
      advance_outcomes [OF wf a1 ok a2 a3 a4]
      advance_outcomes [OF wf a1 ok b2 b3 b4]
      advance_outcomes [OF wf c1 ok c2 c3 c4]
    by (simp add: tm e minizip_OK minizip_END)
qed

subsection \<open>The text of a whole run\<close>

lemma listing_of_fetch_failed:
  assumes "mz_zip_reader_entry_get_info c reader = ((err, file_info), reader1)"
    and "err \<noteq> MZ_OK K"
  shows "listing_of K c reader out0 (err, out0 @ [entry_info_error err], reader1)"
  unfolding listing_of_def
  by (insert assms, rule exI [of _ 0], rule exI [of _ "[]"], rule exI [of _ reader], rule exI [of _ err], rule exI [of _ file_info], rule exI [of _ reader1], simp)

lemma listing_of_last:
  assumes "mz_zip_reader_entry_get_info c reader = ((MZ_OK K, file_info), reader1)"
    and "mz_zip_reader_goto_next_entry c reader1 = (err2, reader2)"
    and "err2 \<noteq> MZ_OK K"
  shows "listing_of K c reader out0
           (if err2 = MZ_END_OF_LIST K
            then (err2, out0 @ [entry_line K (mz_zip_time_t_to_tm c) file_info], reader2)
            else (err2, out0 @ [entry_line K (mz_zip_time_t_to_tm c) file_info,
                                 next_entry_error err2], reader2))"
  unfolding listing_of_def
  by (insert assms, rule exI [of _ 0], rule exI [of _ "[]"], rule exI [of _ reader], rule exI [of _ "MZ_OK K"], rule exI [of _ file_info], rule exI [of _ reader1], simp)

lemma listing_of_step:
  assumes gi: "mz_zip_reader_entry_get_info c reader = ((MZ_OK K, file_info), reader1)"
    and gn: "mz_zip_reader_goto_next_entry c reader1 = (MZ_OK K, reader2)"
    and rest: "listing_of K c reader2 (out0 @ [entry_line K (mz_zip_time_t_to_tm c) file_info]) y"
  shows "listing_of K c reader out0 y"
proof -
  from rest obtain n fs r2 e fi r3 where
    it: "full_iterations K c n reader2 = Some (fs, r2)" and
    g: "mz_zip_reader_entry_get_info c r2 = ((e, fi), r3)" and
    sh: "if e \<noteq> MZ_OK K
      then y = (e, (out0 @ [entry_line K (mz_zip_time_t_to_tm c) file_info]) @ map (entry_line K (mz_zip_time_t_to_tm c)) fs @ [entry_info_error e], r3)
      else \<exists>err2 reader4.
             mz_zip_reader_goto_next_entry c r3 = (err2, reader4) \<and> err2 \<noteq> MZ_OK K \<and>
             (if err2 = MZ_END_OF_LIST K
              then y = (err2, (out0 @ [entry_line K (mz_zip_time_t_to_tm c) file_info]) @ map (entry_line K (mz_zip_time_t_to_tm c)) (fs @ [fi]), reader4)
              else y = (err2, (out0 @ [entry_line K (mz_zip_time_t_to_tm c) file_info]) @ map (entry_line K (mz_zip_time_t_to_tm c)) (fs @ [fi]) @
                               [next_entry_error err2], reader4))"
    unfolding listing_of_def by blast
  have it': "full_iterations K c (Suc n) reader = Some (file_info # fs, r2)"
    using gi gn it by simp
  show ?thesis
    unfolding listing_of_def
    by (insert it' g sh, rule exI [of _ "Suc n"], rule exI [of _ "file_info # fs"], rule exI [of _ r2], rule exI [of _ e], rule exI [of _ fi], rule exI [of _ r3],
        auto simp del: full_iterations.simps split: if_splits)
qed

lemma enumerate_entries_listing_of:
  assumes "enumerate_entries K c reader out0 = Some y"
  shows "listing_of K c reader out0 y"
proof (rule enumerate_entries.raw_induct [where P = listing_of, OF _ assms], goal_cases)
  case (1 f K c reader out0 y)
  obtain err file_info reader1 where gi:
    "mz_zip_reader_entry_get_info c reader = ((err, file_info), reader1)"
    by (metis prod.exhaust)
  show ?case
  proof (cases "err \<noteq> MZ_OK K")
    case True
    with 1(2) gi have "y = (err, out0 @ [entry_info_error err], reader1)"
      by simp
    with gi True show ?thesis
      by (simp add: listing_of_fetch_failed)
  next
    case False
    then have ok: "err = MZ_OK K" by simp
    obtain err2 reader2 where gn:
      "mz_zip_reader_goto_next_entry c reader1 = (err2, reader2)"
      by (metis prod.exhaust)
    show ?thesis
    proof (cases "err2 = MZ_OK K")
      case True
      with 1(2) gi gn ok have "f K c reader2 (out0 @ [entry_line K (mz_zip_time_t_to_tm c) file_info]) = Some y"
        by (simp split: if_splits)
      then have "listing_of K c reader2 (out0 @ [entry_line K (mz_zip_time_t_to_tm c) file_info]) y"
        by (rule 1(1))
      with gi gn ok True show ?thesis
        by (intro listing_of_step [of c reader K file_info reader1 reader2]) simp_all
    next
      case False
      with 1(2) gi gn ok have
        "y = (if err2 = MZ_END_OF_LIST K
              then (err2, out0 @ [entry_line K (mz_zip_time_t_to_tm c) file_info], reader2)
              else (err2, out0 @ [entry_line K (mz_zip_time_t_to_tm c) file_info, next_entry_error err2], reader2))"
        by (simp split: if_splits)
      with gi gn ok False show ?thesis
        using listing_of_last [of c reader K file_info reader1 err2 reader2 out0] by simp
    qed
  qed
qed

text \<open>
  Claim C4, as amended. In a run that returns, when going to the first entry fails, the
  text is the single line \<open>Error <status> going to first entry in archive\<close>. When it
  answers \<^verbatim>\<open>MZ_OK\<close>, the text is the two header lines, then one line for each entry
  fetched, in the order of the enumeration, then at most one more line: \<open>Error <status>
  getting entry info in archive\<close> when the run ends on a failed fetch, \<open>Error <status>
  going to next entry in archive\<close> when it ends on a failed advance, and nothing when the
  advance answers \<^verbatim>\<open>MZ_END_OF_LIST\<close>.
\<close>

theorem output_shape:
  assumes "list_zip_archive K c reader = Some (rc, out, reader')"
    and "mz_zip_reader_goto_first_entry c reader = (err0, reader1)"
    and "err0 \<noteq> MZ_END_OF_LIST K"
  shows "if err0 \<noteq> MZ_OK K then out = [first_entry_error err0]
         else \<exists>n fs reader2 err file_info reader3.
                full_iterations K c n reader1 = Some (fs, reader2) \<and>
                mz_zip_reader_entry_get_info c reader2 = ((err, file_info), reader3) \<and>
                (if err \<noteq> MZ_OK K
                 then out = header_lines @ map (entry_line K (mz_zip_time_t_to_tm c)) fs @
                              [entry_info_error err]
                 else \<exists>err2 reader4.
                        mz_zip_reader_goto_next_entry c reader3 = (err2, reader4) \<and>
                        err2 \<noteq> MZ_OK K \<and>
                        (if err2 = MZ_END_OF_LIST K
                         then out = header_lines @
                                map (entry_line K (mz_zip_time_t_to_tm c)) (fs @ [file_info])
                         else out = header_lines @
                                map (entry_line K (mz_zip_time_t_to_tm c)) (fs @ [file_info]) @
                                [next_entry_error err2]))"
proof (cases "err0 = MZ_OK K")
  case False
  with assms show ?thesis
    by (auto simp add: list_zip_archive_first_failed)
next
  case True
  with assms(1,2) obtain e where
    loop: "enumerate_entries K c reader1 header_lines = Some (e, out, reader')"
    using list_zip_archive_listing [of c reader err0 reader1 K] by auto
  from enumerate_entries_listing_of [OF loop] obtain n fs reader2 err file_info reader3 where
    it: "full_iterations K c n reader1 = Some (fs, reader2)" and
    g: "mz_zip_reader_entry_get_info c reader2 = ((err, file_info), reader3)" and
    sh: "if err \<noteq> MZ_OK K
         then (e, out, reader') = (err,
                   header_lines @ map (entry_line K (mz_zip_time_t_to_tm c)) fs @ [entry_info_error err],
                   reader3)
         else \<exists>err2 reader4.
                mz_zip_reader_goto_next_entry c reader3 = (err2, reader4) \<and>
                err2 \<noteq> MZ_OK K \<and>
                (if err2 = MZ_END_OF_LIST K
                 then (e, out, reader') = (err2,
                           header_lines @ map (entry_line K (mz_zip_time_t_to_tm c)) (fs @ [file_info]),
                           reader4)
                 else (e, out, reader') = (err2,
                           header_lines @ map (entry_line K (mz_zip_time_t_to_tm c)) (fs @ [file_info]) @
                             [next_entry_error err2],
                           reader4))"
    unfolding listing_of_def by blast
  have "\<exists>n fs reader2 err file_info reader3.
                full_iterations K c n reader1 = Some (fs, reader2) \<and>
                mz_zip_reader_entry_get_info c reader2 = ((err, file_info), reader3) \<and>
                (if err \<noteq> MZ_OK K
                 then out = header_lines @ map (entry_line K (mz_zip_time_t_to_tm c)) fs @
                              [entry_info_error err]
                 else \<exists>err2 reader4.
                        mz_zip_reader_goto_next_entry c reader3 = (err2, reader4) \<and>
                        err2 \<noteq> MZ_OK K \<and>
                        (if err2 = MZ_END_OF_LIST K
                         then out = header_lines @
                                map (entry_line K (mz_zip_time_t_to_tm c)) (fs @ [file_info])
                         else out = header_lines @
                                map (entry_line K (mz_zip_time_t_to_tm c)) (fs @ [file_info]) @
                                [next_entry_error err2]))"
    by (insert it g sh, rule exI [of _ n], rule exI [of _ fs], rule exI [of _ reader2],
        rule exI [of _ err], rule exI [of _ file_info], rule exI [of _ reader3],
        auto split: if_splits)
  with True show ?thesis by simp
qed

theorem output_shape_witness:
  "list_zip_archive minizip_consts script_ops three_entries =
     Some (0, header_lines @ map (entry_line minizip_consts epoch_tm) [file_a, file_b, file_c],
           script 0 [] []) \<and>
   mz_zip_reader_goto_first_entry script_ops three_entries = (0, three_entries) \<and>
   (0 :: 32 word) \<noteq> MZ_END_OF_LIST minizip_consts \<and>
   (\<exists>n fs reader2 err file_info reader3.
      full_iterations minizip_consts script_ops n three_entries = Some (fs, reader2) \<and>
      mz_zip_reader_entry_get_info script_ops reader2 = ((err, file_info), reader3) \<and>
      (if err \<noteq> MZ_OK minizip_consts
       then header_lines @ map (entry_line minizip_consts epoch_tm) [file_a, file_b, file_c] =
              header_lines @ map (entry_line minizip_consts epoch_tm) fs @ [entry_info_error err]
       else \<exists>err2 reader4.
              mz_zip_reader_goto_next_entry script_ops reader3 = (err2, reader4) \<and>
              err2 \<noteq> MZ_OK minizip_consts \<and>
              (if err2 = MZ_END_OF_LIST minizip_consts
               then header_lines @ map (entry_line minizip_consts epoch_tm) [file_a, file_b, file_c] =
                      header_lines @ map (entry_line minizip_consts epoch_tm) (fs @ [file_info])
               else header_lines @ map (entry_line minizip_consts epoch_tm) [file_a, file_b, file_c] =
                      header_lines @ map (entry_line minizip_consts epoch_tm) (fs @ [file_info]) @
                      [next_entry_error err2]))) \<and>
   list_zip_archive minizip_consts script_ops (script (- 103) [(0, file_a)] [- 100]) =
     Some (- 103, [first_entry_error (- 103)],
           (script (- 103) [(0, file_a)] [- 100])\<lparr>deleted := True\<rparr>) \<and>
   mz_zip_reader_goto_first_entry script_ops (script (- 103) [(0, file_a)] [- 100]) =
     (- 103, script (- 103) [(0, file_a)] [- 100]) \<and>
   (- 103 :: 32 word) \<noteq> MZ_END_OF_LIST minizip_consts \<and>
   (- 103 :: 32 word) \<noteq> MZ_OK minizip_consts"
proof -
  have tm: "mz_zip_time_t_to_tm script_ops = epoch_tm"
    by (simp add: script_ops_def)
  have a1: "list_zip_archive minizip_consts script_ops three_entries =
     Some (0, header_lines @ map (entry_line minizip_consts epoch_tm) [file_a, file_b, file_c],
           script 0 [] [])"
    by (simp add: list_zip_archive_def enumerate_entries.simps three_entries_def script_defs
          return_value_def)
  have a2: "mz_zip_reader_goto_first_entry script_ops three_entries = (0, three_entries)"
    by (simp add: three_entries_def script_ops_def script_def)
  have a3: "(0 :: 32 word) \<noteq> MZ_END_OF_LIST minizip_consts"
    by (simp add: minizip_END)
  have b1: "list_zip_archive minizip_consts script_ops (script (- 103) [(0, file_a)] [- 100]) =
     Some (- 103, [first_entry_error (- 103)],
           (script (- 103) [(0, file_a)] [- 100])\<lparr>deleted := True\<rparr>)"
    by (simp add: list_zip_archive_def script_defs)
  have b2: "mz_zip_reader_goto_first_entry script_ops (script (- 103) [(0, file_a)] [- 100]) =
     (- 103, script (- 103) [(0, file_a)] [- 100])"
    by (simp add: script_ops_def script_def)
  have b3: "(- 103 :: 32 word) \<noteq> MZ_END_OF_LIST minizip_consts"
    by (simp add: minizip_END)
  have b4: "(- 103 :: 32 word) \<noteq> MZ_OK minizip_consts"
    by (simp add: minizip_OK)
  have ok: "(0 :: 32 word) = MZ_OK minizip_consts"
    by (simp add: minizip_OK)
  show ?thesis
    using a1 a2 a3 b1 b2 b3 b4 output_shape [OF a1 a2 a3] output_shape [OF b1 b2 b3]
    unfolding tm by (simp add: ok [symmetric])
qed

text \<open>
  Claim C4 as stated allows no other line than the header and the lines of the entries.
  A run whose first fetch fails has no entry, and its text is not the header alone.
\<close>

theorem diagnostic_line_counterexample:
  "list_zip_archive minizip_consts script_ops (script 0 [(- 102, no_file)] []) =
     Some (- 102,
           header_lines @ [''Error -102 getting entry info in archive'' @ [CHR 0x0A]],
           script 0 [] []) \<and>
   full_iterations minizip_consts script_ops 0 (script 0 [(- 102, no_file)] []) =
     Some ([], script 0 [(- 102, no_file)] []) \<and>
   header_lines @ [''Error -102 getting entry info in archive'' @ [CHR 0x0A]] \<noteq>
     header_lines @ map (entry_line minizip_consts epoch_tm) []"
  by (simp add: list_zip_archive_def enumerate_entries.simps script_defs return_value_def
        entry_info_error_def fmt_defs)

text \<open>
  The same holds whatever the library answers to that fetch: after \<^verbatim>\<open>MZ_END_OF_LIST\<close>
  from the first positioning, a run that returns has printed more than the two header
  lines.
\<close>

lemma end_of_list_first_prints_more:
  assumes first: "mz_zip_reader_goto_first_entry c reader = (MZ_END_OF_LIST K, reader1)"
    and run: "list_zip_archive K c reader = Some (rc, out, reader')"
  shows "2 < length out"
proof -
  from first run obtain e where
    "enumerate_entries K c reader1 header_lines = Some (e, out, reader')"
    using list_zip_archive_listing [of c reader "MZ_END_OF_LIST K" reader1 K] by auto
  then have "listing_of K c reader1 header_lines (e, out, reader')"
    by (rule enumerate_entries_listing_of)
  then show ?thesis
    unfolding listing_of_def by (auto simp add: header_lines_def split: if_splits)
qed

subsection \<open>Two runs with the same answers\<close>

lemma same_answers_fetch_raw:
  assumes sa: "same_answers K c1 c2 Rf Rn" and rel: "Rf r1 r2"
    and g1: "mz_zip_reader_entry_get_info c1 r1 = ((e1, f1), s1)"
    and g2: "mz_zip_reader_entry_get_info c2 r2 = ((e2, f2), s2)"
  shows "e1 = e2 \<and>
         (e1 = MZ_OK K \<longrightarrow>
            f1 = f2 \<and>
            mz_zip_time_t_to_tm c1 (modified_date f1) =
              mz_zip_time_t_to_tm c2 (modified_date f2) \<and>
            Rn s1 s2)"
proof -
  from sa have a: "\<forall>r1 r2. Rf r1 r2 \<longrightarrow>
        (case (mz_zip_reader_entry_get_info c1 r1, mz_zip_reader_entry_get_info c2 r2) of
           (((e1, f1), s1), ((e2, f2), s2)) \<Rightarrow>
             e1 = e2 \<and>
             (e1 = MZ_OK K \<longrightarrow>
                f1 = f2 \<and>
                mz_zip_time_t_to_tm c1 (modified_date f1) =
                  mz_zip_time_t_to_tm c2 (modified_date f2) \<and>
                Rn s1 s2))"
    unfolding same_answers_def by (rule conjunct1)
  from a [rule_format, OF rel] show ?thesis
    unfolding g1 g2 by auto
qed

lemma same_answers_next:
  assumes sa: "same_answers K c1 c2 Rf Rn" and rel: "Rn r1 r2"
    and g1: "mz_zip_reader_goto_next_entry c1 r1 = (e1, s1)"
    and g2: "mz_zip_reader_goto_next_entry c2 r2 = (e2, s2)"
  shows "e1 = e2 \<and> (e1 = MZ_OK K \<longrightarrow> Rf s1 s2)"
proof -
  from sa have a: "\<forall>r1 r2. Rn r1 r2 \<longrightarrow>
        (case (mz_zip_reader_goto_next_entry c1 r1, mz_zip_reader_goto_next_entry c2 r2) of
           ((e1, s1), (e2, s2)) \<Rightarrow> e1 = e2 \<and> (e1 = MZ_OK K \<longrightarrow> Rf s1 s2))"
    unfolding same_answers_def by (rule conjunct2)
  from a [rule_format, OF rel] show ?thesis
    unfolding g1 g2 by auto
qed

lemma same_answers_fetch:
  assumes "same_answers K c1 c2 Rf Rn" and "Rf r1 r2"
    and "mz_zip_reader_entry_get_info c1 r1 = ((e1, f1), s1)"
    and "mz_zip_reader_entry_get_info c2 r2 = ((e2, f2), s2)"
  shows "e1 = e2 \<and>
         (e1 = MZ_OK K \<longrightarrow>
            entry_line K (mz_zip_time_t_to_tm c1) f1 = entry_line K (mz_zip_time_t_to_tm c2) f2 \<and>
            Rn s1 s2)"
  using same_answers_fetch_raw [OF assms] by (auto simp add: entry_line_def)

lemma same_answers_sym:
  assumes sa: "same_answers K c1 c2 Rf Rn"
  shows "same_answers K c2 c1 (\<lambda>a b. Rf b a) (\<lambda>a b. Rn b a)"
  unfolding same_answers_def
proof (intro conjI allI impI)
  fix r1 r2
  assume rel: "Rf r2 r1"
  obtain e1 f1 s1 where g1: "mz_zip_reader_entry_get_info c2 r1 = ((e1, f1), s1)"
    by (metis prod.exhaust)
  obtain e2 f2 s2 where g2: "mz_zip_reader_entry_get_info c1 r2 = ((e2, f2), s2)"
    by (metis prod.exhaust)
  from same_answers_fetch_raw [OF sa rel g2 g1]
  show "case (mz_zip_reader_entry_get_info c2 r1, mz_zip_reader_entry_get_info c1 r2) of
           (((e1, f1), s1), ((e2, f2), s2)) \<Rightarrow>
             e1 = e2 \<and>
             (e1 = MZ_OK K \<longrightarrow>
                f1 = f2 \<and>
                mz_zip_time_t_to_tm c2 (modified_date f1) =
                  mz_zip_time_t_to_tm c1 (modified_date f2) \<and>
                Rn s2 s1)"
    unfolding g1 g2 by auto
next
  fix r1 r2
  assume rel: "Rn r2 r1"
  obtain e1 s1 where g1: "mz_zip_reader_goto_next_entry c2 r1 = (e1, s1)"
    by (metis prod.exhaust)
  obtain e2 s2 where g2: "mz_zip_reader_goto_next_entry c1 r2 = (e2, s2)"
    by (metis prod.exhaust)
  from same_answers_next [OF sa rel g2 g1]
  show "case (mz_zip_reader_goto_next_entry c2 r1, mz_zip_reader_goto_next_entry c1 r2) of
           ((e1, s1), (e2, s2)) \<Rightarrow> e1 = e2 \<and> (e1 = MZ_OK K \<longrightarrow> Rf s2 s1)"
    unfolding g1 g2 by auto
qed

lemma enumerate_entries_simulated:
  assumes run: "enumerate_entries K c1 r1 out = Some y"
  shows "\<forall>r2. same_answers K c1 c2 Rf Rn \<longrightarrow> Rf r1 r2 \<longrightarrow>
           (\<exists>s. enumerate_entries K c2 r2 out = Some (fst y, fst (snd y), s))"
proof (rule enumerate_entries.raw_induct
    [where P = "\<lambda>K c1 r1 out y. \<forall>r2. same_answers K c1 c2 Rf Rn \<longrightarrow> Rf r1 r2 \<longrightarrow>
           (\<exists>s. enumerate_entries K c2 r2 out = Some (fst y, fst (snd y), s))", OF _ run], goal_cases)
  case (1 f K c1 r1 out y)
  show ?case
  proof (intro allI impI)
    fix r2
    assume sa: "same_answers K c1 c2 Rf Rn" and rel: "Rf r1 r2"
    obtain e1 f1 s1 where g1: "mz_zip_reader_entry_get_info c1 r1 = ((e1, f1), s1)"
      by (metis prod.exhaust)
    obtain e2 f2 s2 where g2: "mz_zip_reader_entry_get_info c2 r2 = ((e2, f2), s2)"
      by (metis prod.exhaust)
    note fetch = same_answers_fetch [OF sa rel g1 g2]
    show "\<exists>s. enumerate_entries K c2 r2 out = Some (fst y, fst (snd y), s)"
    proof (cases "e1 = MZ_OK K")
      case False
      with 1(2) g1 have "y = (e1, out @ [entry_info_error e1], s1)" by simp
      moreover from False fetch g2 have
        "enumerate_entries K c2 r2 out = Some (e1, out @ [entry_info_error e1], s2)"
        by (simp add: enumerate_entries_fetch_failed)
      ultimately show ?thesis by simp
    next
      case True
      with fetch have e2: "e2 = MZ_OK K"
        and line: "entry_line K (mz_zip_time_t_to_tm c1) f1 = entry_line K (mz_zip_time_t_to_tm c2) f2"
        and rn: "Rn s1 s2"
        by simp_all
      obtain n1 t1 where a1: "mz_zip_reader_goto_next_entry c1 s1 = (n1, t1)"
        by (metis prod.exhaust)
      obtain n2 t2 where a2: "mz_zip_reader_goto_next_entry c2 s2 = (n2, t2)"
        by (metis prod.exhaust)
      note adv = same_answers_next [OF sa rn a1 a2]
      note step2 = enumerate_entries_advance [OF g2 [unfolded e2] a2, of out]
      show ?thesis
      proof (cases "n1 = MZ_OK K")
        case ok: True
        with 1(2) g1 a1 True have
          "f K c1 t1 (out @ [entry_line K (mz_zip_time_t_to_tm c1) f1]) = Some y"
          by (simp split: if_splits)
        from 1(1) [OF this] sa adv ok obtain s where
          "enumerate_entries K c2 t2 (out @ [entry_line K (mz_zip_time_t_to_tm c1) f1]) =
             Some (fst y, fst (snd y), s)"
          by blast
        with step2 adv ok line show ?thesis by simp
      next
        case stop: False
        with 1(2) g1 a1 True have
          "y = (if n1 = MZ_END_OF_LIST K
                then (n1, out @ [entry_line K (mz_zip_time_t_to_tm c1) f1], t1)
                else (n1, out @ [entry_line K (mz_zip_time_t_to_tm c1) f1, next_entry_error n1], t1))"
          by (simp split: if_splits)
        with step2 adv stop line show ?thesis by auto
      qed
    qed
  qed
qed

lemma enumerate_entries_same_answers:
  assumes sa: "same_answers K c1 c2 Rf Rn" and rel: "Rf r1 r2"
  shows "observed (enumerate_entries K c1 r1 out) = observed (enumerate_entries K c2 r2 out)"
proof (cases "enumerate_entries K c1 r1 out")
  case (Some y)
  from enumerate_entries_simulated [OF Some, of c2 Rf Rn] sa rel obtain s where
    "enumerate_entries K c2 r2 out = Some (fst y, fst (snd y), s)" by blast
  with Some show ?thesis
    by (simp add: observed_def split: prod.splits)
next
  case None
  have "enumerate_entries K c2 r2 out = None"
  proof (rule ccontr)
    assume "enumerate_entries K c2 r2 out \<noteq> None"
    then obtain y where y: "enumerate_entries K c2 r2 out = Some y" by blast
    from enumerate_entries_simulated [OF y, of c1 "\<lambda>a b. Rf b a" "\<lambda>a b. Rn b a"]
      same_answers_sym [OF sa] rel
    obtain s where "enumerate_entries K c1 r1 out = Some (fst y, fst (snd y), s)" by blast
    with None show False by simp
  qed
  with None show ?thesis by (simp add: observed_def)
qed

text \<open>
  Claim C10. Take two runs, on any two libraries and readers. If going to the first entry
  answers the same status in both, and from there on the two libraries give the same
  answers at each call the runs make (the same status, and after a successful fetch the
  same entry and the same decoded date), then the two runs either both go on for ever or
  both return, with the same return value and the same text.
\<close>

theorem same_answers_same_listing:
  assumes "same_answers K c1 c2 Rf Rn"
    and "mz_zip_reader_goto_first_entry c1 r1 = (e1, s1)"
    and "mz_zip_reader_goto_first_entry c2 r2 = (e2, s2)"
    and "e1 = e2"
    and "e1 = MZ_OK K \<or> e1 = MZ_END_OF_LIST K \<Longrightarrow> Rf s1 s2"
  shows "observed (list_zip_archive K c1 r1) = observed (list_zip_archive K c2 r2)"
proof (cases "e1 = MZ_OK K \<or> e1 = MZ_END_OF_LIST K")
  case True
  then have rel: "Rf s1 s2" by (rule assms(5))
  have "observed (enumerate_entries K c1 s1 header_lines) =
        observed (enumerate_entries K c2 s2 header_lines)"
    using assms(1) rel by (rule enumerate_entries_same_answers)
  then have "observed (map_option (\<lambda>(err', out, reader'). (return_value K err', out, reader'))
                 (enumerate_entries K c1 s1 header_lines)) =
             observed (map_option (\<lambda>(err', out, reader'). (return_value K err', out, reader'))
                 (enumerate_entries K c2 s2 header_lines))"
    by (cases "enumerate_entries K c1 s1 header_lines"; cases "enumerate_entries K c2 s2 header_lines")
       (auto simp add: observed_def)
  with True assms(2,3,4) show ?thesis
    using list_zip_archive_listing [of c1 r1 e1 s1 K] list_zip_archive_listing [of c2 r2 e2 s2 K]
    by simp
next
  case False
  with assms(2,3,4) show ?thesis
    by (simp add: list_zip_archive_first_failed observed_def)
qed

theorem same_answers_same_listing_witness:
  "same_answers minizip_consts script_ops script_ops
     (\<lambda>a b. a = one_entry \<and> b = one_entry_and_more)
     (\<lambda>a b. next_results a = [- 100] \<and> next_results b = [- 100, 0]) \<and>
   mz_zip_reader_goto_first_entry script_ops one_entry = (0, one_entry) \<and>
   mz_zip_reader_goto_first_entry script_ops one_entry_and_more = (0, one_entry_and_more) \<and>
   one_entry \<noteq> one_entry_and_more \<and>
   observed (list_zip_archive minizip_consts script_ops one_entry) =
     observed (list_zip_archive minizip_consts script_ops one_entry_and_more)"
proof -
  have sa: "same_answers minizip_consts script_ops script_ops
     (\<lambda>a b. a = one_entry \<and> b = one_entry_and_more)
     (\<lambda>a b. next_results a = [- 100] \<and> next_results b = [- 100, 0])"
    by (simp add: same_answers_def script_ops_def script_def one_entry_def
          one_entry_and_more_def minizip_consts_def)
  have f1: "mz_zip_reader_goto_first_entry script_ops one_entry = (0, one_entry)"
    by (simp add: script_ops_def script_def one_entry_def)
  have f2: "mz_zip_reader_goto_first_entry script_ops one_entry_and_more =
              (0, one_entry_and_more)"
    by (simp add: script_ops_def script_def one_entry_and_more_def)
  have ne: "one_entry \<noteq> one_entry_and_more"
    by (simp add: script_def one_entry_def one_entry_and_more_def)
  have rel: "one_entry = one_entry \<and> one_entry_and_more = one_entry_and_more"
    by simp
  show ?thesis
    using sa f1 f2 ne same_answers_same_listing [OF sa f1 f2 refl rel]
    by simp
qed

end
